theory Spec2Isabelle
  imports Main
begin

section \<open>Failures\<close>

text \<open>
  \<^verbatim>\<open>class Error(Exception)\<close> carries a message; \<^verbatim>\<open>class ConstraintsErrors(Exception)\<close>
  carries the list \<^verbatim>\<open>errors\<close> of the failures it was built from, in order.
  \<^verbatim>\<open>Errors = Optional[ConstraintsErrors]\<close>: \<open>None\<close> is "no failure".
\<close>

datatype Error = Error (message: string)

datatype ConstraintsErrors = ConstraintsErrors (errors: "Error list")

type_synonym Errors = "ConstraintsErrors option"

section \<open>States\<close>

text \<open>
  \<^verbatim>\<open>State\<close> is a dataclass with the one field \<^verbatim>\<open>identifier\<close>; \<^verbatim>\<open>WorkflowState(State, enum.Enum)\<close>
  adds what an enumeration member has, its \<^verbatim>\<open>name\<close>. \<^verbatim>\<open>State.__hash__\<close> hashes the identifier
  and the generated \<^verbatim>\<open>__eq__\<close> compares the identifiers of two objects of one class, so as
  dictionary keys two states are the same key exactly when their identifiers are equal.
\<close>

record State =
  "identifier" :: string

record WorkflowState = State +
  name :: string

definition state_eq :: "WorkflowState \<Rightarrow> WorkflowState \<Rightarrow> bool" where
  "state_eq a b \<longleftrightarrow> State.identifier a = State.identifier b"

text \<open>
  What is written between the brackets of \<^verbatim>\<open>states[...]\<close>: a member name (a string), or a
  member object itself.
\<close>

datatype key = Name string | Member WorkflowState

text \<open>
  Every way a call of this module ends other than by returning. \<open>LookupError\<close> keeps the
  two states its message is formatted from; \<open>AttributeError\<close> and \<open>NameError\<close> keep the
  name that could not be resolved; \<open>Exception\<close> is anything else a validator or a trigger
  of the host raises.
\<close>

datatype exn =
    Raise_Error Error
  | Raise_ConstraintsErrors ConstraintsErrors
  | KeyError key
  | LookupError WorkflowState WorkflowState
  | AttributeError string
  | NameError string
  | Exception string

section \<open>The host entity\<close>

text \<open>
  The entity is any object with the slot \<^verbatim>\<open>__workflow_state__\<close> (a string or \<^verbatim>\<open>None\<close>);
  the rest of its shape is the extension of the record. Validators and triggers are
  callables of the host: they receive the entity and the namespace, may change the
  entity, and return normally (\<open>None\<close>) or raise.
\<close>

record item =
  workflow_state :: "string option"

type_synonym ('a, 'n) callable =
  "'a item_scheme \<Rightarrow> 'n \<Rightarrow> exn option \<times> 'a item_scheme"

section \<open>Validators\<close>

datatype ('a, 'n) Validator =
    Validator "('a, 'n) callable"
  | OR "('a, 'n) Validator list"

text \<open>
  \<^verbatim>\<open>OR.validate\<close>: the loop over \<^verbatim>\<open>self.validators\<close> with the running list \<^verbatim>\<open>errors\<close>.
  \<^verbatim>\<open>errors.extends\<close> is not a method of a list, and \<^verbatim>\<open>ConstraintsError\<close> is not a name of
  the module: reaching either line raises \<^verbatim>\<open>AttributeError\<close>, respectively \<^verbatim>\<open>NameError\<close>.
\<close>

fun validate :: "('a, 'n) Validator \<Rightarrow> ('a, 'n) callable"
  and OR_validate :: "('a, 'n) Validator list \<Rightarrow> Error list \<Rightarrow> ('a, 'n) callable"
where
  "validate (Validator f) itm ns = f itm ns"
| "validate (OR validators) itm ns = OR_validate validators [] itm ns"
| "OR_validate [] errs itm ns = (Some (NameError ''ConstraintsError''), itm)"
| "OR_validate (validator # rest) errs itm ns =
     (case validate validator itm ns of
        (None, itm') \<Rightarrow> (None, itm')
      | (Some (Raise_Error exc), itm') \<Rightarrow> OR_validate rest (errs @ [exc]) itm' ns
      | (Some (Raise_ConstraintsErrors exc), itm') \<Rightarrow> (Some (AttributeError ''extends''), itm')
      | (Some e, itm') \<Rightarrow> (Some e, itm'))"

text \<open>\<^verbatim>\<open>resolve_validators\<close>: the same loop without the early return.\<close>

fun resolve_loop ::
  "('a, 'n) Validator list \<Rightarrow> Error list \<Rightarrow> 'a item_scheme \<Rightarrow> 'n
     \<Rightarrow> (exn + Error list) \<times> 'a item_scheme"
where
  "resolve_loop [] errs itm ns = (Inr errs, itm)"
| "resolve_loop (validator # rest) errs itm ns =
     (case validate validator itm ns of
        (None, itm') \<Rightarrow> resolve_loop rest errs itm' ns
      | (Some (Raise_Error exc), itm') \<Rightarrow> resolve_loop rest (errs @ [exc]) itm' ns
      | (Some (Raise_ConstraintsErrors exc), itm') \<Rightarrow> (Inl (AttributeError ''extends''), itm')
      | (Some e, itm') \<Rightarrow> (Inl e, itm'))"

definition resolve_validators ::
  "('a, 'n) Validator list \<Rightarrow> 'a item_scheme \<Rightarrow> 'n \<Rightarrow> (exn + Errors) \<times> 'a item_scheme"
where
  "resolve_validators validators itm ns =
     (case resolve_loop validators [] itm ns of
        (Inl e, itm') \<Rightarrow> (Inl e, itm')
      | (Inr errs, itm') \<Rightarrow>
          (if errs \<noteq> [] then (Inr (Some (ConstraintsErrors errs)), itm')
           else (Inr None, itm')))"

section \<open>Actions and transitions\<close>

record ('a, 'n) Action =
  "identifier" :: string
  constraints :: "('a, 'n) Validator list"
  triggers :: "('a, 'n) callable list"

definition check_constraints ::
  "('a, 'n) Action \<Rightarrow> 'a item_scheme \<Rightarrow> 'n \<Rightarrow> (exn + Errors) \<times> 'a item_scheme"
where
  "check_constraints self itm ns =
     (if constraints self \<noteq> [] then resolve_validators (constraints self) itm ns
      else (Inr None, itm))"

record ('a, 'n) Transition =
  action :: "('a, 'n) Action"
  origin :: WorkflowState
  target :: WorkflowState

section \<open>The transition index\<close>

text \<open>
  A Python \<^verbatim>\<open>dict\<close> keeps its keys in the order of their first insertion; assigning to a
  key that is already there replaces the value and leaves the key (and its place) as it
  is. It is an association list here, with \<open>state_eq\<close> as the equality of keys.
  \<open>dict_getitem\<close> gives \<open>None\<close> where Python raises \<^verbatim>\<open>KeyError\<close>.
\<close>

type_synonym 'v dict = "(WorkflowState \<times> 'v) list"

fun dict_getitem :: "'v dict \<Rightarrow> WorkflowState \<Rightarrow> 'v option" where
  "dict_getitem [] k = None"
| "dict_getitem ((k', v') # d) k = (if state_eq k' k then Some v' else dict_getitem d k)"

fun dict_setitem :: "'v dict \<Rightarrow> WorkflowState \<Rightarrow> 'v \<Rightarrow> 'v dict" where
  "dict_setitem [] k v = [(k, v)]"
| "dict_setitem ((k', v') # d) k v =
     (if state_eq k' k then (k', v) # d else (k', v') # dict_setitem d k v)"

text \<open>
  \<^verbatim>\<open>defaultdict(dict)\<close>: reading a key that is missing first stores an empty dictionary
  under it, so a read returns the inner dictionary and the outer one as it is afterwards.
\<close>

definition defaultdict_getitem :: "'v dict dict \<Rightarrow> WorkflowState \<Rightarrow> 'v dict \<times> 'v dict dict" where
  "defaultdict_getitem d k =
     (case dict_getitem d k of
        Some inner \<Rightarrow> (inner, d)
      | None \<Rightarrow> ([], dict_setitem d k []))"

text \<open>
  \<^verbatim>\<open>Transitions\<close> is the tuple of the transitions it was built from (\<open>elements\<close>) together
  with \<^verbatim>\<open>_edges\<close>. \<open>add_edge\<close> is the body of the loop of \<^verbatim>\<open>__new__\<close>:
  \<^verbatim>\<open>obj._edges[trn.origin][trn.target] = trn\<close>. The argument of \<^verbatim>\<open>__new__\<close> is read twice, once
  for the tuple and once by the loop; it is a list here.
\<close>

record ('a, 'n) Transitions =
  elements :: "('a, 'n) Transition list"
  edges :: "('a, 'n) Transition dict dict"

definition add_edge ::
  "('a, 'n) Transition dict dict \<Rightarrow> ('a, 'n) Transition \<Rightarrow> ('a, 'n) Transition dict dict"
where
  "add_edge d trn =
     (case defaultdict_getitem d (origin trn) of
        (inner, d') \<Rightarrow> dict_setitem d' (origin trn) (dict_setitem inner (target trn) trn))"

definition Transitions_new :: "('a, 'n) Transition list \<Rightarrow> ('a, 'n) Transitions" where
  "Transitions_new transitions =
     \<lparr>elements = transitions, edges = foldl add_edge [] transitions\<rparr>"

text \<open>
  \<^verbatim>\<open>available\<close> is a generator; it is consumed at once by \<^verbatim>\<open>tuple(...)\<close> in
  \<^verbatim>\<open>get_possible_actions\<close>, so the model computes the whole sequence: the transitions
  yielded, or the exception that left \<^verbatim>\<open>check_constraints\<close> on the way.
\<close>

fun available_loop ::
  "('a, 'n) Transition dict \<Rightarrow> 'a item_scheme \<Rightarrow> 'n
     \<Rightarrow> (exn + ('a, 'n) Transition list) \<times> 'a item_scheme"
where
  "available_loop [] itm ns = (Inr [], itm)"
| "available_loop ((targ, trn) # rest) itm ns =
     (case check_constraints (action trn) itm ns of
        (Inl e, itm') \<Rightarrow> (Inl e, itm')
      | (Inr err, itm') \<Rightarrow>
          (case available_loop rest itm' ns of
             (Inl e, itm'') \<Rightarrow> (Inl e, itm'')
           | (Inr yielded, itm'') \<Rightarrow>
               (Inr (if err = None then trn # yielded else yielded), itm'')))"

definition available ::
  "('a, 'n) Transitions \<Rightarrow> WorkflowState \<Rightarrow> 'a item_scheme \<Rightarrow> 'n
     \<Rightarrow> (exn + ('a, 'n) Transition list) \<times> 'a item_scheme \<times> ('a, 'n) Transitions"
where
  "available self orig itm ns =
     (case defaultdict_getitem (edges self) orig of
        (inner, d') \<Rightarrow>
          (case available_loop inner itm ns of
             (r, itm') \<Rightarrow> (r, itm', self\<lparr>edges := d'\<rparr>)))"

definition find_transition ::
  "('a, 'n) Transitions \<Rightarrow> WorkflowState \<Rightarrow> WorkflowState
     \<Rightarrow> (exn + ('a, 'n) Transition) \<times> ('a, 'n) Transitions"
where
  "find_transition self orig targ =
     (case defaultdict_getitem (edges self) orig of
        (inner, d') \<Rightarrow>
          (case dict_getitem inner targ of
             Some trn \<Rightarrow> (Inr trn, self\<lparr>edges := d'\<rparr>)
           | None \<Rightarrow> (Inl (LookupError orig targ), self\<lparr>edges := d'\<rparr>)))"

section \<open>Workflow\<close>

text \<open>
  \<^verbatim>\<open>states\<close> is the enumeration class: its member map, from member names to members, in
  definition order. \<^verbatim>\<open>states[k]\<close> looks \<open>k\<close> up among the names; the names are strings, and
  a member is equal to no string, so a member object as the key is a \<^verbatim>\<open>KeyError\<close>.
\<close>

fun states_getitem :: "(string \<times> WorkflowState) list \<Rightarrow> key \<Rightarrow> exn + WorkflowState" where
  "states_getitem members (Name n) =
     (case map_of members n of
        Some m \<Rightarrow> Inr m
      | None \<Rightarrow> Inl (KeyError (Name n)))"
| "states_getitem members (Member m) = Inl (KeyError (Member m))"

record ('a, 'n) Workflow =
  states :: "(string \<times> WorkflowState) list"
  transitions :: "('a, 'n) Transitions"
  default_state :: WorkflowState

text \<open>
  \<^verbatim>\<open>Workflow.__init__\<close>; \<^verbatim>\<open>states\<close> and \<^verbatim>\<open>transitions\<close> are attributes of the subclass, given
  here as arguments.
\<close>

definition Workflow_init ::
  "(string \<times> WorkflowState) list \<Rightarrow> ('a, 'n) Transitions \<Rightarrow> key \<Rightarrow> exn + ('a, 'n) Workflow"
where
  "Workflow_init sts trns dflt =
     (case states_getitem sts dflt of
        Inl e \<Rightarrow> Inl e
      | Inr s \<Rightarrow> Inr \<lparr>states = sts, transitions = trns, default_state = s\<rparr>)"

definition get_state :: "('a, 'n) Workflow \<Rightarrow> key option \<Rightarrow> exn + WorkflowState" where
  "get_state self nm =
     (case nm of
        None \<Rightarrow> Inr (default_state self)
      | Some k \<Rightarrow> states_getitem (states self) k)"

section \<open>WorkflowItem\<close>

record ('a, 'n) WorkflowItem =
  item :: "'a item_scheme"
  workflow :: "('a, 'n) Workflow"
  namespace :: 'n

text \<open>Python's truth value of the slot: \<^verbatim>\<open>None\<close> and the empty string are false.\<close>

definition truthy :: "string option \<Rightarrow> bool" where
  "truthy s \<longleftrightarrow> (case s of None \<Rightarrow> False | Some n \<Rightarrow> n \<noteq> [])"

definition state :: "('a, 'n) WorkflowItem \<Rightarrow> exn + WorkflowState" where
  "state self =
     (if truthy (workflow_state (item self))
      then get_state (workflow self) (map_option Name (workflow_state (item self)))
      else get_state (workflow self) None)"

text \<open>\<^verbatim>\<open>Workflow.__call__\<close>: binding a workflow to an entity and a namespace.\<close>

definition Workflow_call ::
  "('a, 'n) Workflow \<Rightarrow> 'a item_scheme \<Rightarrow> 'n \<Rightarrow> ('a, 'n) WorkflowItem"
where
  "Workflow_call self itm ns = \<lparr>item = itm, workflow = self, namespace = ns\<rparr>"

definition get_possible_actions ::
  "('a, 'n) WorkflowItem \<Rightarrow> (exn + ('a, 'n) Transition list) \<times> ('a, 'n) WorkflowItem"
where
  "get_possible_actions self =
     (case state self of
        Inl e \<Rightarrow> (Inl e, self)
      | Inr cur \<Rightarrow>
          (case available (transitions (workflow self)) cur (item self) (namespace self) of
             (r, itm', trns') \<Rightarrow>
               (r, self\<lparr>item := itm', workflow := (workflow self)\<lparr>transitions := trns'\<rparr>\<rparr>)))"

text \<open>The loop over \<^verbatim>\<open>trn.action.triggers\<close>: it stops at the first trigger that raises.\<close>

fun run_triggers :: "('a, 'n) callable list \<Rightarrow> ('a, 'n) callable" where
  "run_triggers [] itm ns = (None, itm)"
| "run_triggers (trigger # rest) itm ns =
     (case trigger itm ns of
        (Some e, itm') \<Rightarrow> (Some e, itm')
      | (None, itm') \<Rightarrow> run_triggers rest itm' ns)"

definition set_state ::
  "('a, 'n) WorkflowItem \<Rightarrow> string \<Rightarrow> exn option \<times> ('a, 'n) WorkflowItem"
where
  "set_state self target_state =
     (case states_getitem (states (workflow self)) (Name target_state) of
        Inl e \<Rightarrow> (Some e, self)
      | Inr targ \<Rightarrow>
          (case state self of
             Inl e \<Rightarrow> (Some e, self)
           | Inr cur \<Rightarrow>
               (case find_transition (transitions (workflow self)) cur targ of
                  (Inl e, trns') \<Rightarrow>
                    (Some e, self\<lparr>workflow := (workflow self)\<lparr>transitions := trns'\<rparr>\<rparr>)
                | (Inr trn, trns') \<Rightarrow>
                    (case check_constraints (action trn) (item self) (namespace self) of
                       (Inl e, itm') \<Rightarrow>
                         (Some e,
                          self\<lparr>item := itm', workflow := (workflow self)\<lparr>transitions := trns'\<rparr>\<rparr>)
                     | (Inr (Some error), itm') \<Rightarrow>
                         (Some (Raise_ConstraintsErrors error),
                          self\<lparr>item := itm', workflow := (workflow self)\<lparr>transitions := trns'\<rparr>\<rparr>)
                     | (Inr None, itm') \<Rightarrow>
                         (case run_triggers (triggers (action trn)) itm' (namespace self) of
                            (Some e, itm'') \<Rightarrow>
                              (Some e,
                               self\<lparr>item := itm'',
                                    workflow := (workflow self)\<lparr>transitions := trns'\<rparr>\<rparr>)
                          | (None, itm'') \<Rightarrow>
                              (None,
                               self\<lparr>item := itm''\<lparr>workflow_state := Some (name targ)\<rparr>,
                                    workflow := (workflow self)\<lparr>transitions := trns'\<rparr>\<rparr>))))))"

section \<open>Reference definitions\<close>

subsection \<open>Evaluating a list of constraints\<close>

text \<open>
  What "evaluating every constraint" means, independently of \<open>resolve_validators\<close>: each
  validator of the list is called once, in list order, on the entity as the previous
  ones left it; \<open>outcomes\<close> gives what each call did (\<open>None\<close>: it returned) and the
  entity after the last call.
\<close>

fun outcomes ::
  "('a, 'n) Validator list \<Rightarrow> 'a item_scheme \<Rightarrow> 'n \<Rightarrow> exn option list \<times> 'a item_scheme"
where
  "outcomes [] itm ns = ([], itm)"
| "outcomes (validator # rest) itm ns =
     (case validate validator itm ns of
        (r, itm') \<Rightarrow> (case outcomes rest itm' ns of (rs, itm'') \<Rightarrow> (r # rs, itm'')))"

text \<open>The single failures among a list of outcomes, in order.\<close>

fun single_failures :: "exn option list \<Rightarrow> Error list" where
  "single_failures [] = []"
| "single_failures (Some (Raise_Error e) # rs) = e # single_failures rs"
| "single_failures (r # rs) = single_failures rs"

text \<open>A constraint "either passes or signals a single failure"; a constraint "fails".\<close>

fun passes_or_fails_once :: "exn option \<Rightarrow> bool" where
  "passes_or_fails_once None = True"
| "passes_or_fails_once (Some (Raise_Error e)) = True"
| "passes_or_fails_once (Some e) = False"

fun single_failure :: "exn option \<Rightarrow> bool" where
  "single_failure (Some (Raise_Error e)) = True"
| "single_failure r = False"

subsection \<open>The construction sequence of an index\<close>

text \<open>
  \<open>supplied_from ts orig\<close>: the transitions of the construction sequence that leave
  \<open>orig\<close>, in the order supplied; \<open>matching ts orig targ\<close>: those supplied for the pair
  \<open>(orig, targ)\<close>.
\<close>

definition supplied_from ::
  "('a, 'n) Transition list \<Rightarrow> WorkflowState \<Rightarrow> ('a, 'n) Transition list"
where
  "supplied_from ts orig = filter (\<lambda>trn. state_eq (origin trn) orig) ts"

definition matching ::
  "('a, 'n) Transition list \<Rightarrow> WorkflowState \<Rightarrow> WorkflowState \<Rightarrow> ('a, 'n) Transition list"
where
  "matching ts orig targ = filter (\<lambda>trn. state_eq (target trn) targ) (supplied_from ts orig)"

text \<open>
  \<open>first_targets ts orig\<close>: the targets reached from \<open>orig\<close> (by identifier), each once, in
  the order in which they first appear in the construction sequence.
  \<open>retained ts orig\<close>: for each of them, in that order, the last transition supplied for it.
\<close>

definition first_targets :: "('a, 'n) Transition list \<Rightarrow> WorkflowState \<Rightarrow> string list" where
  "first_targets ts orig =
     rev (remdups (rev (map (\<lambda>trn. State.identifier (target trn)) (supplied_from ts orig))))"

definition retained ::
  "('a, 'n) Transition list \<Rightarrow> WorkflowState \<Rightarrow> ('a, 'n) Transition list"
where
  "retained ts orig =
     map (\<lambda>i. last (filter (\<lambda>trn. State.identifier (target trn) = i) (supplied_from ts orig)))
       (first_targets ts orig)"

text \<open>
  The other reading of "the transitions indexed under the origin, in the order supplied":
  every transition that is the last one supplied for its pair, at its own place in the
  construction sequence.
\<close>

fun last_supplied_per_target :: "('a, 'n) Transition list \<Rightarrow> ('a, 'n) Transition list" where
  "last_supplied_per_target [] = []"
| "last_supplied_per_target (trn # rest) =
     (if list_ex (\<lambda>t. state_eq (target t) (target trn)) rest
      then last_supplied_per_target rest
      else trn # last_supplied_per_target rest)"

text \<open>
  A transition "passes" when its action's constraints give no aggregate. Its guard "only
  reads" when evaluating the constraints raises nothing and leaves the entity as it was.
\<close>

definition passes :: "'a item_scheme \<Rightarrow> 'n \<Rightarrow> ('a, 'n) Transition \<Rightarrow> bool" where
  "passes itm ns trn \<longleftrightarrow> fst (check_constraints (action trn) itm ns) = Inr None"

definition guard_only_reads :: "'a item_scheme \<Rightarrow> 'n \<Rightarrow> ('a, 'n) Transition \<Rightarrow> bool" where
  "guard_only_reads itm ns trn \<longleftrightarrow>
     (case check_constraints (action trn) itm ns of
        (Inl e, itm') \<Rightarrow> False
      | (Inr r, itm') \<Rightarrow> itm' = itm)"

definition available_in_supply_order ::
  "('a, 'n) Transition list \<Rightarrow> WorkflowState \<Rightarrow> 'a item_scheme \<Rightarrow> 'n
     \<Rightarrow> ('a, 'n) Transition list"
where
  "available_in_supply_order ts orig itm ns =
     filter (passes itm ns) (last_supplied_per_target (supplied_from ts orig))"

text \<open>
  The inner dictionary a read of \<^verbatim>\<open>_edges[k]\<close> returns, and a dictionary with its keys
  replaced by their identifiers.
\<close>

definition inner_of :: "'v dict dict \<Rightarrow> WorkflowState \<Rightarrow> 'v dict" where
  "inner_of d k = fst (defaultdict_getitem d k)"

definition ident_keys :: "'v dict \<Rightarrow> (string \<times> 'v) list" where
  "ident_keys d = map (\<lambda>(k, v). (State.identifier k, v)) d"

subsection \<open>Running every trigger\<close>

text \<open>
  Every trigger of the list applied in list order, each to the entity as the previous one
  left it.
\<close>

definition all_triggers_applied ::
  "('a, 'n) callable list \<Rightarrow> 'a item_scheme \<Rightarrow> 'n \<Rightarrow> 'a item_scheme"
where
  "all_triggers_applied trs itm ns = foldl (\<lambda>i trigger. snd (trigger i ns)) itm trs"

section \<open>A sample workflow\<close>

text \<open>
  A document with a log of what validators and triggers did to it; the namespace is the
  role of the acting user.
\<close>

record document = item +
  log :: "string list"

definition ex_blank :: document where
  "ex_blank = \<lparr>workflow_state = None, log = []\<rparr>"

text \<open>Validators: one that leaves a trace on the entity, and four that only read.\<close>

definition ex_probe :: "string \<Rightarrow> bool \<Rightarrow> (unit document_ext, string) Validator" where
  "ex_probe m ok =
     Validator (\<lambda>itm ns. (if ok then None else Some (Raise_Error (Error m)),
                           itm\<lparr>log := log itm @ [m]\<rparr>))"

definition ex_fail :: "string \<Rightarrow> (unit document_ext, string) Validator" where
  "ex_fail m = Validator (\<lambda>itm ns. (Some (Raise_Error (Error m)), itm))"

definition ex_pass :: "(unit document_ext, string) Validator" where
  "ex_pass = Validator (\<lambda>itm ns. (None, itm))"

definition ex_role :: "string \<Rightarrow> (unit document_ext, string) Validator" where
  "ex_role r =
     Validator (\<lambda>itm ns. (if ns = r then None else Some (Raise_Error (Error (''not '' @ r))), itm))"

definition ex_aggregate :: "string list \<Rightarrow> (unit document_ext, string) Validator" where
  "ex_aggregate ms =
     Validator (\<lambda>itm ns. (Some (Raise_ConstraintsErrors (ConstraintsErrors (map Error ms))), itm))"

text \<open>Triggers: one that writes to the log, one that raises.\<close>

definition ex_notify :: "string \<Rightarrow> (unit document_ext, string) callable" where
  "ex_notify m = (\<lambda>itm ns. (None, itm\<lparr>log := log itm @ [m]\<rparr>))"

definition ex_broken :: "string \<Rightarrow> (unit document_ext, string) callable" where
  "ex_broken m = (\<lambda>itm ns. (Some (Exception m), itm))"

definition ex_draft :: WorkflowState where
  "ex_draft = \<lparr>State.identifier = ''Draft'', name = ''draft''\<rparr>"

definition ex_submitted :: WorkflowState where
  "ex_submitted = \<lparr>State.identifier = ''Submitted'', name = ''submitted''\<rparr>"

definition ex_published :: WorkflowState where
  "ex_published = \<lparr>State.identifier = ''Published'', name = ''published''\<rparr>"

definition ex_states :: "(string \<times> WorkflowState) list" where
  "ex_states = [(''draft'', ex_draft), (''submitted'', ex_submitted), (''published'', ex_published)]"

definition ex_submit :: "(unit document_ext, string) Transition" where
  "ex_submit =
     \<lparr>action = \<lparr>Action.identifier = ''submit'', constraints = [],
                 triggers = [ex_notify ''submitted'']\<rparr>,
      origin = ex_draft, target = ex_submitted\<rparr>"

definition ex_publish :: "(unit document_ext, string) Transition" where
  "ex_publish =
     \<lparr>action = \<lparr>Action.identifier = ''publish'', constraints = [ex_pass, ex_role ''editor''],
                 triggers = [ex_notify ''indexed'', ex_notify ''announced'']\<rparr>,
      origin = ex_submitted, target = ex_published\<rparr>"

definition ex_retract :: "(unit document_ext, string) Transition" where
  "ex_retract =
     \<lparr>action = \<lparr>Action.identifier = ''retract'', constraints = [],
                 triggers = [ex_notify ''T1'', ex_broken ''T2'']\<rparr>,
      origin = ex_submitted, target = ex_draft\<rparr>"

definition ex_transitions :: "(unit document_ext, string) Transition list" where
  "ex_transitions = [ex_submit, ex_publish, ex_retract]"

definition ex_workflow :: "(unit document_ext, string) Workflow" where
  "ex_workflow =
     \<lparr>states = ex_states, transitions = Transitions_new ex_transitions, default_state = ex_draft\<rparr>"

definition ex_doc :: "string \<Rightarrow> string \<Rightarrow> (unit document_ext, string) WorkflowItem" where
  "ex_doc s role =
     \<lparr>item = \<lparr>workflow_state = Some s, log = []\<rparr>, workflow = ex_workflow, namespace = role\<rparr>"

text \<open>A construction sequence that supplies the pair (draft, submitted) twice.\<close>

definition ex_direct :: "(unit document_ext, string) Transition" where
  "ex_direct =
     \<lparr>action = \<lparr>Action.identifier = ''publish directly'', constraints = [ex_role ''editor''],
                 triggers = []\<rparr>,
      origin = ex_draft, target = ex_published\<rparr>"

definition ex_resubmit :: "(unit document_ext, string) Transition" where
  "ex_resubmit =
     \<lparr>action = \<lparr>Action.identifier = ''resubmit'', constraints = [ex_pass],
                 triggers = []\<rparr>,
      origin = ex_draft, target = ex_submitted\<rparr>"

definition ex_duplicates :: "(unit document_ext, string) Transition list" where
  "ex_duplicates = [ex_submit, ex_direct, ex_resubmit]"

section \<open>Properties of the validators\<close>

lemma resolve_loop_outcomes:
  "list_all passes_or_fails_once (fst (outcomes vs itm ns)) \<Longrightarrow>
   resolve_loop vs errs itm ns =
     (Inr (errs @ single_failures (fst (outcomes vs itm ns))), snd (outcomes vs itm ns))"
proof (induction vs arbitrary: errs itm)
  case Nil
  then show ?case by simp
next
  case (Cons v vs)
  obtain r itm' where v: "validate v itm ns = (r, itm')"
    by (cases "validate v itm ns")
  obtain rs itm'' where o: "outcomes vs itm' ns = (rs, itm'')"
    by (cases "outcomes vs itm' ns")
  from Cons.prems v o have ok: "passes_or_fails_once r"
    and rest: "list_all passes_or_fails_once rs"
    by simp_all
  from rest o
  have ih: "\<And>errs. resolve_loop vs errs itm' ns = (Inr (errs @ single_failures rs), itm'')"
    using Cons.IH [of itm'] by simp
  show ?case
  proof (cases r)
    case None
    with v o ih show ?thesis by simp
  next
    case (Some e)
    with ok obtain exc where "e = Raise_Error exc" by (cases e) simp_all
    with Some v o ih show ?thesis by simp
  qed
qed

lemma length_outcomes: "length (fst (outcomes vs itm ns)) = length vs"
proof (induction vs arbitrary: itm)
  case Nil
  then show ?case by simp
next
  case (Cons v vs)
  obtain r itm' where v: "validate v itm ns = (r, itm')"
    by (cases "validate v itm ns")
  obtain rs itm'' where o: "outcomes vs itm' ns = (rs, itm'')"
    by (cases "outcomes vs itm' ns")
  from Cons.IH [of itm'] o have "length rs = length vs" by simp
  with v o show ?case by simp
qed

text \<open>
  C4. When every constraint of the list passes or signals a single failure,
  \<open>resolve_validators\<close> calls every one of them (there is one outcome per constraint, and
  the entity it leaves is the one left by the last call: no short-circuit) and returns the
  aggregate of exactly the single failures, in list order, or \<open>None\<close> when there is none.
\<close>

theorem resolve_validators_collects_all:
  assumes "list_all passes_or_fails_once (fst (outcomes vs itm ns))"
  shows "resolve_validators vs itm ns =
           (Inr (if single_failures (fst (outcomes vs itm ns)) = [] then None
                 else Some (ConstraintsErrors (single_failures (fst (outcomes vs itm ns))))),
            snd (outcomes vs itm ns))
         \<and> length (fst (outcomes vs itm ns)) = length vs"
  using resolve_loop_outcomes [OF assms, of "[]"]
  by (simp add: resolve_validators_def length_outcomes)

text \<open>
  Over [C1 fails, C2 passes, C3 fails]: all three have run (each left its trace on the
  entity), and C1's and C3's failures come back, in that order.
\<close>

theorem resolve_validators_collects_all_witness:
  "list_all passes_or_fails_once
     (fst (outcomes [ex_probe ''C1'' False, ex_probe ''C2'' True, ex_probe ''C3'' False]
             ex_blank ''reader''))
   \<and> resolve_validators [ex_probe ''C1'' False, ex_probe ''C2'' True, ex_probe ''C3'' False]
         ex_blank ''reader''
       = (Inr (Some (ConstraintsErrors [Error ''C1'', Error ''C3''])),
          \<lparr>workflow_state = None, log = [''C1'', ''C2'', ''C3'']\<rparr>)"
proof -
  have h: "list_all passes_or_fails_once
     (fst (outcomes [ex_probe ''C1'' False, ex_probe ''C2'' True, ex_probe ''C3'' False]
             ex_blank ''reader''))"
    by (simp add: ex_probe_def ex_blank_def)
  show ?thesis
    using h resolve_validators_collects_all [OF h]
    by (simp add: ex_probe_def ex_blank_def)
qed

text \<open>
  The first half of the OR combinator: the first sub-validator that passes ends the call,
  and the ones after it are not called.
\<close>

lemma OR_validate_first_pass:
  "validate v itm ns = (None, itm') \<Longrightarrow> OR_validate (v # rest) errs itm ns = (None, itm')"
  by simp

lemma OR_first_pass_returns:
  "validate (OR [ex_fail ''C1'', ex_pass, ex_probe ''C3'' False]) ex_blank ''reader''
     = (None, ex_blank)"
  by (simp add: ex_fail_def ex_pass_def)

text \<open>
  The second half: when every sub-validator signals a single failure, the loop ends and
  the \<^verbatim>\<open>raise\<close> after it names \<^verbatim>\<open>ConstraintsError\<close>, which the module does not define.
\<close>

lemma OR_validate_all_fail:
  "list_all single_failure (fst (outcomes vs itm ns)) \<Longrightarrow>
   OR_validate vs errs itm ns = (Some (NameError ''ConstraintsError''), snd (outcomes vs itm ns))"
proof (induction vs arbitrary: errs itm)
  case Nil
  then show ?case by simp
next
  case (Cons v vs)
  obtain r itm' where v: "validate v itm ns = (r, itm')"
    by (cases "validate v itm ns")
  obtain rs itm'' where o: "outcomes vs itm' ns = (rs, itm'')"
    by (cases "outcomes vs itm' ns")
  from Cons.prems v o have "single_failure r" and rest: "list_all single_failure rs"
    by simp_all
  then obtain exc where r: "r = Some (Raise_Error exc)"
    by (cases r rule: single_failure.cases) simp_all
  from rest o Cons.IH [of itm' "errs @ [exc]"] v r show ?case
    by simp
qed

text \<open>
  C5. OR over [C1 fails, C2 fails] should signal the aggregate of both failures; the code
  raises \<^verbatim>\<open>NameError\<close> instead.
\<close>

theorem OR_all_fail_raises_NameError:
  "validate (OR [ex_fail ''C1'', ex_fail ''C2'']) ex_blank ''reader''
     = (Some (NameError ''ConstraintsError''), ex_blank)"
  by (simp add: ex_fail_def)

text \<open>
  C9. A constraint that signals an aggregate should have its failures added to the running
  list; the code calls \<^verbatim>\<open>errors.extends\<close>, which a list does not have, and
  \<open>resolve_validators\<close> ends with \<^verbatim>\<open>AttributeError\<close>.
\<close>

theorem resolve_validators_aggregate_raises_AttributeError:
  "resolve_validators [ex_fail ''C1'', ex_aggregate [''a'', ''b'']] ex_blank ''reader''
     = (Inl (AttributeError ''extends''), ex_blank)"
  by (simp add: resolve_validators_def ex_fail_def ex_aggregate_def)

section \<open>Properties of the workflow and the current state\<close>

text \<open>
  C10. Constructing the workflow with a member as the default state should give the same
  workflow as constructing it with the member's name; \<^verbatim>\<open>states[member]\<close> is a
  \<^verbatim>\<open>KeyError\<close>, and only the name is accepted.
\<close>

theorem Workflow_init_member_raises_KeyError:
  "Workflow_init ex_states (Transitions_new ex_transitions) (Member ex_draft)
     = Inl (KeyError (Member ex_draft))
   \<and> Workflow_init ex_states (Transitions_new ex_transitions) (Name ''draft'')
     = Inr ex_workflow"
  by (simp add: Workflow_init_def ex_states_def ex_workflow_def)

text \<open>
  C8, as stated: \<open>get_state\<close> returns the default state for the empty identifier. It does
  not: the empty string is looked up like any other name.
\<close>

theorem get_state_empty_counterexample:
  "get_state ex_workflow (Some (Name [])) = Inl (KeyError (Name []))
   \<and> get_state ex_workflow (Some (Name [])) \<noteq> Inr (default_state ex_workflow)"
  by (simp add: get_state_def ex_workflow_def ex_states_def)

text \<open>
  C8, amended. \<open>get_state\<close> returns the default state for the absent identifier (\<open>None\<close>);
  for a string it returns the member of that name, and fails with \<^verbatim>\<open>KeyError\<close> when there
  is none, the empty string included. It is \<open>state\<close> that maps an empty slot, like an absent
  one, to the default: for every entity whose slot is \<open>None\<close> or empty, the current state
  of the bound \<open>WorkflowItem\<close> is the default state of the workflow.
\<close>

theorem get_state_default:
  "get_state flow None = Inr (default_state flow)
   \<and> (map_of (states flow) n = Some m \<longrightarrow> get_state flow (Some (Name n)) = Inr m)
   \<and> (map_of (states flow) n = None \<longrightarrow>
        get_state flow (Some (Name n)) = Inl (KeyError (Name n)))
   \<and> (workflow_state itm = None \<or> workflow_state itm = Some [] \<longrightarrow>
        state (Workflow_call flow itm ns) = Inr (default_state flow))"
  by (auto simp: get_state_def state_def truthy_def Workflow_call_def)

theorem get_state_default_witness:
  "get_state ex_workflow None = Inr ex_draft
   \<and> map_of (states ex_workflow) ''published'' = Some ex_published
   \<and> get_state ex_workflow (Some (Name ''published'')) = Inr ex_published
   \<and> map_of (states ex_workflow) [] = None
   \<and> get_state ex_workflow (Some (Name [])) = Inl (KeyError (Name []))
   \<and> workflow_state ex_blank = None
   \<and> state (Workflow_call ex_workflow ex_blank ''reader'') = Inr ex_draft
   \<and> workflow_state (ex_blank\<lparr>workflow_state := Some []\<rparr>) = Some []
   \<and> state (Workflow_call ex_workflow (ex_blank\<lparr>workflow_state := Some []\<rparr>) ''reader'')
       = Inr ex_draft"
proof -
  have 1: "map_of (states ex_workflow) ''published'' = Some ex_published"
    by (simp add: ex_workflow_def ex_states_def)
  have 2: "map_of (states ex_workflow) [] = None"
    by (simp add: ex_workflow_def ex_states_def)
  have 3: "workflow_state ex_blank = None"
    "workflow_state (ex_blank\<lparr>workflow_state := Some []\<rparr>) = Some []"
    by (simp_all add: ex_blank_def)
  have 4: "default_state ex_workflow = ex_draft"
    by (simp add: ex_workflow_def)
  from get_state_default [of ex_workflow "''published''" ex_published ex_blank "''reader''"]
    get_state_default [of ex_workflow "[]" ex_published
      "ex_blank\<lparr>workflow_state := Some []\<rparr>" "''reader''"]
    1 2 3 4
  show ?thesis
    by simp
qed

section \<open>Properties of the transition index\<close>

subsection \<open>Dictionaries\<close>

lemma state_eq_refl [simp]: "state_eq a a"
  by (simp add: state_eq_def)

lemma dict_getitem_cong: "state_eq a b \<Longrightarrow> dict_getitem d a = dict_getitem d b"
  by (induction d) (auto simp: state_eq_def)

lemma dict_getitem_setitem:
  "dict_getitem (dict_setitem d k v) k' = (if state_eq k k' then Some v else dict_getitem d k')"
  by (induction d) (auto simp: state_eq_def)

lemma inner_of_alt:
  "inner_of d k = (case dict_getitem d k of Some inner \<Rightarrow> inner | None \<Rightarrow> [])"
  by (simp add: inner_of_def defaultdict_getitem_def split: option.splits)

lemma inner_of_Nil [simp]: "inner_of [] k = []"
  by (simp add: inner_of_alt)

text \<open>
  A read of a missing key stores an empty dictionary under it. No later read sees a
  difference: the inner dictionary of every key is what it was.
\<close>

lemma inner_of_after_read: "inner_of (snd (defaultdict_getitem d k)) k' = inner_of d k'"
proof (cases "state_eq k k'")
  case True
  then have "dict_getitem d k = dict_getitem d k'"
    by (rule dict_getitem_cong)
  with True show ?thesis
    by (simp add: inner_of_alt defaultdict_getitem_def dict_getitem_setitem split: option.splits)
next
  case False
  then show ?thesis
    by (simp add: inner_of_alt defaultdict_getitem_def dict_getitem_setitem split: option.splits)
qed

lemma inner_of_add_edge:
  "inner_of (add_edge d trn) k =
     (if state_eq (origin trn) k then dict_setitem (inner_of d k) (target trn) trn
      else inner_of d k)"
proof (cases "state_eq (origin trn) k")
  case True
  then have "dict_getitem d (origin trn) = dict_getitem d k"
    by (rule dict_getitem_cong)
  with True show ?thesis
    by (simp add: inner_of_alt add_edge_def defaultdict_getitem_def dict_getitem_setitem
        split: option.splits)
next
  case False
  then show ?thesis
    by (simp add: inner_of_alt add_edge_def defaultdict_getitem_def dict_getitem_setitem
        split: option.splits)
qed

text \<open>Assigning to a key replaces the value in place, or appends the new key.\<close>

lemma ident_keys_setitem:
  assumes "ident_keys d = map (\<lambda>i. (i, f i)) ks" and "distinct ks"
  shows "ident_keys (dict_setitem d k v) =
           (if State.identifier k \<in> set ks
            then map (\<lambda>i. (i, if i = State.identifier k then v else f i)) ks
            else map (\<lambda>i. (i, f i)) ks @ [(State.identifier k, v)])"
  using assms
proof (induction d arbitrary: ks)
  case Nil
  then show ?case by (simp add: ident_keys_def)
next
  case (Cons p d)
  obtain k' v' where p: "p = (k', v')" by (cases p)
  from Cons.prems(1) p obtain i ks' where ks: "ks = i # ks'"
    and i: "State.identifier k' = i" and v': "v' = f i"
    and rest: "ident_keys d = map (\<lambda>i. (i, f i)) ks'"
    by (cases ks) (auto simp: ident_keys_def)
  from Cons.prems(2) ks have notin: "i \<notin> set ks'" and dist: "distinct ks'"
    by simp_all
  show ?case
  proof (cases "state_eq k' k")
    case True
    then have eq: "State.identifier k = i"
      using i by (simp add: state_eq_def)
    have "map (\<lambda>j. (j, if j = i then v else f j)) ks' = map (\<lambda>j. (j, f j)) ks'"
      using notin by (intro map_cong) auto
    with True eq p ks i rest show ?thesis
      by (simp add: ident_keys_def)
  next
    case False
    then have neq: "State.identifier k \<noteq> i"
      using i by (auto simp: state_eq_def)
    from Cons.IH [OF rest dist] False neq p ks i v' show ?thesis
      by (auto simp: ident_keys_def)
  qed
qed

lemma at_most_one_key:
  "distinct (map f xs) \<Longrightarrow> length (filter (\<lambda>x. f x = a) xs) \<le> 1"
proof (induction xs)
  case Nil
  then show ?case by simp
next
  case (Cons x xs)
  show ?case
  proof (cases "f x = a")
    case True
    with Cons.prems have "\<forall>y \<in> set xs. f y \<noteq> a"
      by (metis distinct.simps(2) imageI list.simps(9) list.set_map)
    then have "filter (\<lambda>x. f x = a) xs = []"
      by (simp add: filter_empty_conv)
    with True show ?thesis by simp
  next
    case False
    with Cons show ?thesis by simp
  qed
qed

subsection \<open>What the constructor builds\<close>

lemma find_in_built:
  "dict_getitem (inner_of (foldl add_edge d ts) orig) targ =
     (if matching ts orig targ = [] then dict_getitem (inner_of d orig) targ
      else Some (last (matching ts orig targ)))"
proof (induction ts arbitrary: d)
  case Nil
  show ?case by (simp add: matching_def supplied_from_def)
next
  case (Cons x xs)
  show ?case
    by (simp add: Cons.IH [of "add_edge d x"] inner_of_add_edge dict_getitem_setitem
        matching_def supplied_from_def)
qed

lemma first_targets_snoc:
  "first_targets (ts @ [x]) orig =
     (if state_eq (origin x) orig
      then (if State.identifier (target x) \<in> set (first_targets ts orig)
            then first_targets ts orig
            else first_targets ts orig @ [State.identifier (target x)])
      else first_targets ts orig)"
  by (auto simp: first_targets_def supplied_from_def)

lemma distinct_first_targets: "distinct (first_targets ts orig)"
  by (simp add: first_targets_def)

lemma inner_built:
  "ident_keys (inner_of (foldl add_edge [] ts) orig) =
     map (\<lambda>i. (i, last (filter (\<lambda>trn. State.identifier (target trn) = i) (supplied_from ts orig))))
       (first_targets ts orig)"
proof (induction ts rule: rev_induct)
  case Nil
  show ?case by (simp add: ident_keys_def first_targets_def supplied_from_def)
next
  case (snoc x ts)
  show ?case
  proof (cases "state_eq (origin x) orig")
    case False
    with snoc show ?thesis
      by (simp add: inner_of_add_edge first_targets_snoc supplied_from_def)
  next
    case True
    let ?S = "supplied_from ts orig"
    let ?f = "\<lambda>i. last (filter (\<lambda>trn. State.identifier (target trn) = i) ?S)"
    let ?g = "\<lambda>i. last (filter (\<lambda>trn. State.identifier (target trn) = i) (?S @ [x]))"
    have S: "supplied_from (ts @ [x]) orig = ?S @ [x]"
      using True by (simp add: supplied_from_def)
    have g: "?g i = (if i = State.identifier (target x) then x else ?f i)" for i
      by auto
    have "ident_keys (inner_of (foldl add_edge [] (ts @ [x])) orig) =
            ident_keys (dict_setitem (inner_of (foldl add_edge [] ts) orig) (target x) x)"
      using True by (simp add: inner_of_add_edge)
    also have "\<dots> =
        (if State.identifier (target x) \<in> set (first_targets ts orig)
         then map (\<lambda>i. (i, if i = State.identifier (target x) then x else ?f i))
                (first_targets ts orig)
         else map (\<lambda>i. (i, ?f i)) (first_targets ts orig) @ [(State.identifier (target x), x)])"
      by (rule ident_keys_setitem [OF snoc.IH distinct_first_targets])
    also have "\<dots> = map (\<lambda>i. (i, ?g i)) (first_targets (ts @ [x]) orig)"
    proof (cases "State.identifier (target x) \<in> set (first_targets ts orig)")
      case in_keys: True
      with True show ?thesis
        by (simp add: g first_targets_snoc)
    next
      case new_key: False
      have "map (\<lambda>i. (i, ?g i)) (first_targets ts orig)
              = map (\<lambda>i. (i, ?f i)) (first_targets ts orig)"
        using new_key by (intro map_cong) (auto simp: g)
      with True new_key show ?thesis
        by (simp add: first_targets_snoc)
    qed
    finally show ?thesis
      by (simp only: S)
  qed
qed

lemma retained_built: "map snd (inner_of (edges (Transitions_new ts)) orig) = retained ts orig"
proof -
  have "map snd (inner_of (foldl add_edge [] ts) orig)
          = map snd (ident_keys (inner_of (foldl add_edge [] ts) orig))"
    by (simp add: ident_keys_def case_prod_unfold comp_def)
  then show ?thesis
    by (simp add: inner_built retained_def Transitions_new_def comp_def)
qed

lemma keys_distinct_built:
  "distinct (map (\<lambda>(k, trn). State.identifier k) (inner_of (edges (Transitions_new ts)) orig))"
proof -
  have "map (\<lambda>(k, trn). State.identifier k) (inner_of (foldl add_edge [] ts) orig)
          = map fst (ident_keys (inner_of (foldl add_edge [] ts) orig))"
    by (simp add: ident_keys_def case_prod_unfold comp_def)
  then show ?thesis
    by (simp add: inner_built Transitions_new_def comp_def distinct_first_targets)
qed

lemma retained_no_duplicates:
  assumes "distinct (map (\<lambda>trn. State.identifier (target trn)) (supplied_from ts orig))"
  shows "retained ts orig = supplied_from ts orig"
proof -
  let ?g = "\<lambda>trn. State.identifier (target trn)"
  have one: "distinct (map ?g S) \<Longrightarrow> t \<in> set S \<Longrightarrow> filter (\<lambda>t'. ?g t' = ?g t) S = [t]"
    for S :: "('a, 'b) Transition list" and t
  proof (induction S)
    case Nil
    then show ?case by simp
  next
    case (Cons a S)
    show ?case
    proof (cases "t = a")
      case True
      from Cons.prems(1) have "?g a \<notin> ?g ` set S"
        by simp
      then have "\<forall>t' \<in> set S. ?g t' \<noteq> ?g a"
        by (metis imageI)
      then have "filter (\<lambda>t'. ?g t' = ?g a) S = []"
        by (simp add: filter_empty_conv)
      with True show ?thesis by simp
    next
      case False
      with Cons.prems have "t \<in> set S" "?g a \<noteq> ?g t" by auto
      with Cons show ?thesis by simp
    qed
  qed
  let ?S = "supplied_from ts orig"
  have "first_targets ts orig = map ?g ?S"
    using assms by (simp add: first_targets_def distinct_remdups_id)
  then have "retained ts orig = map (\<lambda>t. last (filter (\<lambda>t'. ?g t' = ?g t) ?S)) ?S"
    by (simp add: retained_def comp_def)
  also have "\<dots> = map (\<lambda>t. t) ?S"
    using one [OF assms] by (intro map_cong) auto
  finally show ?thesis by simp
qed

subsection \<open>find\<close>

lemma fst_find_transition:
  "fst (find_transition T orig targ) =
     (case dict_getitem (inner_of (edges T) orig) targ of
        Some trn \<Rightarrow> Inr trn
      | None \<Rightarrow> Inl (LookupError orig targ))"
  by (cases "defaultdict_getitem (edges T) orig")
    (simp add: find_transition_def inner_of_def split: option.splits)

lemma edges_find_transition:
  "edges (snd (find_transition T orig targ)) = snd (defaultdict_getitem (edges T) orig)"
  by (cases "defaultdict_getitem (edges T) orig")
    (simp add: find_transition_def split: option.splits)

text \<open>A lookup gives the same answer after any other lookup.\<close>

lemma find_after_find:
  "fst (find_transition (snd (find_transition T orig' targ')) orig targ)
     = fst (find_transition T orig targ)"
  by (simp add: fst_find_transition edges_find_transition inner_of_after_read)

text \<open>
  C6. \<open>find\<close> on the index built from \<open>ts\<close> returns the last transition of \<open>ts\<close> supplied
  for the pair, whenever \<open>ts\<close> has one, and fails with \<^verbatim>\<open>LookupError\<close> (not with a constraint
  failure) when it has none; the index holds at most one entry for the pair.
\<close>

theorem find_returns_last_supplied:
  "fst (find_transition (Transitions_new ts) orig targ) =
     (if matching ts orig targ = [] then Inl (LookupError orig targ)
      else Inr (last (matching ts orig targ)))
   \<and> length (filter (\<lambda>(k, trn). state_eq k targ)
               (fst (defaultdict_getitem (edges (Transitions_new ts)) orig))) \<le> 1"
proof -
  have "length (filter (\<lambda>p. (case p of (k, trn) \<Rightarrow> State.identifier k) = State.identifier targ)
               (inner_of (edges (Transitions_new ts)) orig)) \<le> 1"
    by (rule at_most_one_key [OF keys_distinct_built])
  then have "length (filter (\<lambda>(k, trn). state_eq k targ)
               (fst (defaultdict_getitem (edges (Transitions_new ts)) orig))) \<le> 1"
    by (simp add: state_eq_def case_prod_unfold inner_of_def)
  moreover have "fst (find_transition (Transitions_new ts) orig targ) =
     (if matching ts orig targ = [] then Inl (LookupError orig targ)
      else Inr (last (matching ts orig targ)))"
    by (simp add: fst_find_transition Transitions_new_def find_in_built)
  ultimately show ?thesis
    by (rule conjI [rotated])
qed

text \<open>
  The pair (draft, submitted) is supplied twice and the second transition is found; the
  pair (submitted, draft) is not supplied and the lookup fails.
\<close>

theorem find_returns_last_supplied_witness:
  "matching ex_duplicates ex_draft ex_submitted = [ex_submit, ex_resubmit]
   \<and> fst (find_transition (Transitions_new ex_duplicates) ex_draft ex_submitted) = Inr ex_resubmit
   \<and> matching ex_duplicates ex_submitted ex_draft = []
   \<and> fst (find_transition (Transitions_new ex_duplicates) ex_submitted ex_draft)
       = Inl (LookupError ex_submitted ex_draft)"
proof -
  have 1: "matching ex_duplicates ex_draft ex_submitted = [ex_submit, ex_resubmit]"
    by (simp add: ex_duplicates_def ex_submit_def ex_direct_def ex_resubmit_def ex_draft_def
        ex_submitted_def ex_published_def ex_pass_def ex_role_def ex_blank_def
        matching_def supplied_from_def state_eq_def)
  have 2: "matching ex_duplicates ex_submitted ex_draft = []"
    by (simp add: ex_duplicates_def ex_submit_def ex_direct_def ex_resubmit_def ex_draft_def
        ex_submitted_def ex_published_def ex_pass_def ex_role_def ex_blank_def
        matching_def supplied_from_def state_eq_def)
  from find_returns_last_supplied [of ex_duplicates ex_draft ex_submitted]
    find_returns_last_supplied [of ex_duplicates ex_submitted ex_draft] 1 2
  show ?thesis
    by simp
qed

subsection \<open>available\<close>

lemma available_loop_reads:
  assumes "list_all (guard_only_reads itm ns) (map snd d)"
  shows "available_loop d itm ns = (Inr (filter (passes itm ns) (map snd d)), itm)"
  using assms
proof (induction d)
  case Nil
  show ?case by simp
next
  case (Cons p d)
  obtain k trn where p: "p = (k, trn)" by (cases p)
  from Cons.prems p obtain r where c: "check_constraints (action trn) itm ns = (Inr r, itm)"
    by (auto simp: guard_only_reads_def split: prod.splits sum.splits)
  from Cons have "available_loop d itm ns = (Inr (filter (passes itm ns) (map snd d)), itm)"
    by simp
  moreover from c have "passes itm ns trn \<longleftrightarrow> r = None"
    by (simp add: passes_def)
  ultimately show ?case
    using p c by simp
qed

lemma available_proj:
  "available T orig itm ns =
     (fst (available_loop (inner_of (edges T) orig) itm ns),
      snd (available_loop (inner_of (edges T) orig) itm ns),
      T\<lparr>edges := snd (defaultdict_getitem (edges T) orig)\<rparr>)"
  by (simp add: available_def inner_of_def split: prod.splits)

text \<open>
  C7, as stated: the transitions indexed under the origin come out in the order in which
  they were supplied. With the pair (draft, submitted) supplied before and after the pair
  (draft, published), the transition retained for (draft, submitted) is the one supplied
  last, and it is yielded first.
\<close>

theorem available_supply_order_counterexample:
  "fst (available (Transitions_new ex_duplicates) ex_draft ex_blank ''editor'')
     = Inr [ex_resubmit, ex_direct]
   \<and> available_in_supply_order ex_duplicates ex_draft ex_blank ''editor''
     = [ex_direct, ex_resubmit]
   \<and> fst (available (Transitions_new ex_duplicates) ex_draft ex_blank ''editor'')
     \<noteq> Inr (available_in_supply_order ex_duplicates ex_draft ex_blank ''editor'')"
  by (simp add: ex_duplicates_def ex_submit_def ex_direct_def ex_resubmit_def ex_draft_def
        ex_submitted_def ex_published_def ex_pass_def ex_role_def ex_blank_def
        available_in_supply_order_def supplied_from_def passes_def available_def
        Transitions_new_def add_edge_def defaultdict_getitem_def state_eq_def
        check_constraints_def resolve_validators_def)

text \<open>
  C7, amended. When the guards of the transitions indexed under the origin only read,
  \<open>available\<close> yields exactly the transitions retained under the origin (per target, the
  last one supplied) whose constraints pass, and none whose constraints fail; they come in
  the order in which their targets first appear in the construction sequence, which is the
  order supplied when no pair is supplied twice. The entity is unchanged and a second call
  yields the same sequence.
\<close>

theorem available_yields_passing_retained:
  assumes "list_all (guard_only_reads itm ns) (retained ts orig)"
  shows "fst (available (Transitions_new ts) orig itm ns)
           = Inr (filter (passes itm ns) (retained ts orig))
         \<and> fst (snd (available (Transitions_new ts) orig itm ns)) = itm
         \<and> fst (available (snd (snd (available (Transitions_new ts) orig itm ns))) orig itm ns)
             = fst (available (Transitions_new ts) orig itm ns)
         \<and> (distinct (map (\<lambda>trn. State.identifier (target trn)) (supplied_from ts orig))
              \<longrightarrow> retained ts orig = supplied_from ts orig)"
proof -
  let ?T = "Transitions_new ts"
  have r: "list_all (guard_only_reads itm ns) (map snd (inner_of (edges ?T) orig))"
    using assms by (simp add: retained_built)
  have first: "available ?T orig itm ns =
      (Inr (filter (passes itm ns) (retained ts orig)), itm,
       ?T\<lparr>edges := snd (defaultdict_getitem (edges ?T) orig)\<rparr>)"
    by (simp add: available_proj available_loop_reads [OF r] retained_built)
  have "inner_of (edges (?T\<lparr>edges := snd (defaultdict_getitem (edges ?T) orig)\<rparr>)) orig
          = inner_of (edges ?T) orig"
    by (simp add: inner_of_after_read)
  then have second:
    "fst (available (?T\<lparr>edges := snd (defaultdict_getitem (edges ?T) orig)\<rparr>) orig itm ns)
      = Inr (filter (passes itm ns) (retained ts orig))"
    by (simp add: available_proj available_loop_reads [OF r] retained_built)
  from first second show ?thesis
    by (simp add: retained_no_duplicates)
qed

text \<open>
  Out of the submitted state a reader may retract but not publish: the transition whose
  guard fails is left out, the order is the order supplied, and asking again gives the
  same answer.
\<close>

theorem available_yields_passing_retained_witness:
  "list_all (guard_only_reads ex_blank ''reader'') (retained ex_transitions ex_submitted)
   \<and> distinct (map (\<lambda>trn. State.identifier (target trn)) (supplied_from ex_transitions ex_submitted))
   \<and> supplied_from ex_transitions ex_submitted = [ex_publish, ex_retract]
   \<and> retained ex_transitions ex_submitted = [ex_publish, ex_retract]
   \<and> \<not> passes ex_blank ''reader'' ex_publish
   \<and> fst (available (Transitions_new ex_transitions) ex_submitted ex_blank ''reader'')
       = Inr [ex_retract]
   \<and> fst (available
            (snd (snd (available (Transitions_new ex_transitions) ex_submitted ex_blank ''reader'')))
            ex_submitted ex_blank ''reader'')
       = Inr [ex_retract]"
proof -
  have s: "supplied_from ex_transitions ex_submitted = [ex_publish, ex_retract]"
    by (simp add: ex_transitions_def ex_submit_def ex_publish_def ex_retract_def ex_draft_def
        ex_submitted_def ex_published_def ex_pass_def ex_role_def ex_blank_def
        supplied_from_def state_eq_def)
  have d: "distinct (map (\<lambda>trn. State.identifier (target trn))
             (supplied_from ex_transitions ex_submitted))"
    unfolding s
    by (simp add: ex_transitions_def ex_submit_def ex_publish_def ex_retract_def ex_draft_def
        ex_submitted_def ex_published_def ex_pass_def ex_role_def ex_blank_def)
  have r: "retained ex_transitions ex_submitted = [ex_publish, ex_retract]"
    unfolding retained_def first_targets_def s
    by (simp add: ex_transitions_def ex_submit_def ex_publish_def ex_retract_def ex_draft_def
        ex_submitted_def ex_published_def ex_pass_def ex_role_def ex_blank_def)
  have h: "list_all (guard_only_reads ex_blank ''reader'') (retained ex_transitions ex_submitted)"
    unfolding r
    by (simp add: ex_transitions_def ex_submit_def ex_publish_def ex_retract_def ex_draft_def
        ex_submitted_def ex_published_def ex_pass_def ex_role_def ex_blank_def
        guard_only_reads_def check_constraints_def resolve_validators_def)
  have p: "\<not> passes ex_blank ''reader'' ex_publish" "passes ex_blank ''reader'' ex_retract"
    by (simp_all add: ex_transitions_def ex_submit_def ex_publish_def ex_retract_def ex_draft_def
        ex_submitted_def ex_published_def ex_pass_def ex_role_def ex_blank_def
        passes_def check_constraints_def resolve_validators_def)
  from available_yields_passing_retained [OF h] s d r h p show ?thesis
    by simp
qed

section \<open>Committing a transition\<close>

lemma run_triggers_all:
  "run_triggers trs itm ns = (None, itm') \<Longrightarrow> itm' = all_triggers_applied trs itm ns"
proof (induction trs arbitrary: itm)
  case Nil
  then show ?case by (simp add: all_triggers_applied_def)
next
  case (Cons t trs)
  obtain r itm1 where t: "t itm ns = (r, itm1)" by (cases "t itm ns")
  with Cons.prems have r: "r = None" and rest: "run_triggers trs itm1 ns = (None, itm')"
    by (cases r; simp)+
  from Cons.IH [OF rest] t show ?case
    by (simp add: all_triggers_applied_def)
qed

text \<open>
  C1. When the constraints of the transition found for the commit give the aggregate
  \<open>agg\<close>, \<open>set_state\<close> raises exactly \<open>agg\<close>; the entity after the call is the entity
  \<open>itm'\<close> as the evaluation of the constraints left it, whatever the triggers of the action
  are (none of them has been applied to it), and its recorded state has not been written:
  it is the recorded state from before the call as long as the validators themselves left
  it alone.
\<close>

theorem set_state_guard_failure:
  assumes "states_getitem (states (workflow self)) (Name target_state) = Inr targ"
    and "state self = Inr cur"
    and "fst (find_transition (transitions (workflow self)) cur targ) = Inr trn"
    and "check_constraints (action trn) (item self) (namespace self) = (Inr (Some agg), itm')"
  shows "fst (set_state self target_state) = Some (Raise_ConstraintsErrors agg)
         \<and> item (snd (set_state self target_state)) = itm'
         \<and> (workflow_state itm' = workflow_state (item self) \<longrightarrow>
              workflow_state (item (snd (set_state self target_state)))
                = workflow_state (item self))"
proof -
  from assms(3) obtain trns' where
    "find_transition (transitions (workflow self)) cur targ = (Inr trn, trns')"
    by (cases "find_transition (transitions (workflow self)) cur targ") simp
  with assms(1,2,4) show ?thesis
    by (simp add: set_state_def)
qed

text \<open>
  A reader tries to publish a submitted document: the aggregate of the one failing
  constraint is raised, the log is empty (neither trigger of the action ran) and the
  document is still submitted.
\<close>

theorem set_state_guard_failure_witness:
  "states_getitem (states (workflow (ex_doc ''submitted'' ''reader''))) (Name ''published'')
     = Inr ex_published
   \<and> state (ex_doc ''submitted'' ''reader'') = Inr ex_submitted
   \<and> fst (find_transition (transitions (workflow (ex_doc ''submitted'' ''reader'')))
            ex_submitted ex_published) = Inr ex_publish
   \<and> check_constraints (action ex_publish) (item (ex_doc ''submitted'' ''reader''))
        (namespace (ex_doc ''submitted'' ''reader''))
       = (Inr (Some (ConstraintsErrors [Error ''not editor''])),
          \<lparr>workflow_state = Some ''submitted'', log = []\<rparr>)
   \<and> fst (set_state (ex_doc ''submitted'' ''reader'') ''published'')
       = Some (Raise_ConstraintsErrors (ConstraintsErrors [Error ''not editor'']))
   \<and> item (snd (set_state (ex_doc ''submitted'' ''reader'') ''published''))
       = \<lparr>workflow_state = Some ''submitted'', log = []\<rparr>
   \<and> workflow_state (item (snd (set_state (ex_doc ''submitted'' ''reader'') ''published'')))
       = workflow_state (item (ex_doc ''submitted'' ''reader''))"
proof -
  have 1: "states_getitem (states (workflow (ex_doc ''submitted'' ''reader''))) (Name ''published'')
     = Inr ex_published"
    by (simp add: ex_doc_def ex_workflow_def ex_states_def ex_transitions_def ex_submit_def ex_publish_def
        ex_retract_def ex_draft_def ex_submitted_def ex_published_def ex_pass_def ex_role_def
        ex_notify_def ex_broken_def)
  have 2: "state (ex_doc ''submitted'' ''reader'') = Inr ex_submitted"
    by (simp add: ex_doc_def ex_workflow_def ex_states_def ex_transitions_def ex_submit_def ex_publish_def
        ex_retract_def ex_draft_def ex_submitted_def ex_published_def ex_pass_def ex_role_def
        ex_notify_def ex_broken_def
        set_state_def state_def truthy_def get_state_def
        find_transition_def Transitions_new_def add_edge_def defaultdict_getitem_def state_eq_def
        check_constraints_def resolve_validators_def)
  have 3: "fst (find_transition (transitions (workflow (ex_doc ''submitted'' ''reader'')))
            ex_submitted ex_published) = Inr ex_publish"
    by (simp add: ex_doc_def ex_workflow_def ex_states_def ex_transitions_def ex_submit_def ex_publish_def
        ex_retract_def ex_draft_def ex_submitted_def ex_published_def ex_pass_def ex_role_def
        ex_notify_def ex_broken_def
        set_state_def state_def truthy_def get_state_def
        find_transition_def Transitions_new_def add_edge_def defaultdict_getitem_def state_eq_def
        check_constraints_def resolve_validators_def)
  have 4: "check_constraints (action ex_publish) (item (ex_doc ''submitted'' ''reader''))
        (namespace (ex_doc ''submitted'' ''reader''))
       = (Inr (Some (ConstraintsErrors [Error ''not editor''])),
          \<lparr>workflow_state = Some ''submitted'', log = []\<rparr>)"
    by (simp add: ex_doc_def ex_workflow_def ex_states_def ex_transitions_def ex_submit_def ex_publish_def
        ex_retract_def ex_draft_def ex_submitted_def ex_published_def ex_pass_def ex_role_def
        ex_notify_def ex_broken_def
        set_state_def state_def truthy_def get_state_def
        find_transition_def Transitions_new_def add_edge_def defaultdict_getitem_def state_eq_def
        check_constraints_def resolve_validators_def)
  have 5: "workflow_state (item (ex_doc ''submitted'' ''reader'')) = Some ''submitted''"
    by (simp add: ex_doc_def)
  from set_state_guard_failure [OF 1 2 3 4] 1 2 3 4 5 show ?thesis
    by simp
qed

text \<open>
  C2. With the trigger list [T1, T2], T1 returning and T2 raising \<open>e\<close>: \<open>set_state\<close> raises
  \<open>e\<close> itself; the entity after the call is \<open>itm2\<close>, the entity as T2 left it, T2 having
  started from the entity \<open>itm1\<close> that T1 produced, so T1's effect is there; and the
  recorded state has not been written by the commit: it is the one from before the call
  as long as the callables themselves left it alone.
\<close>

theorem set_state_trigger_failure:
  assumes "states_getitem (states (workflow self)) (Name target_state) = Inr targ"
    and "state self = Inr cur"
    and "fst (find_transition (transitions (workflow self)) cur targ) = Inr trn"
    and "check_constraints (action trn) (item self) (namespace self) = (Inr None, itm0)"
    and "triggers (action trn) = [T1, T2]"
    and "T1 itm0 (namespace self) = (None, itm1)"
    and "T2 itm1 (namespace self) = (Some e, itm2)"
  shows "fst (set_state self target_state) = Some e
         \<and> item (snd (set_state self target_state)) = itm2
         \<and> (workflow_state itm2 = workflow_state (item self) \<longrightarrow>
              workflow_state (item (snd (set_state self target_state)))
                = workflow_state (item self))"
proof -
  from assms(3) obtain trns' where
    "find_transition (transitions (workflow self)) cur targ = (Inr trn, trns')"
    by (cases "find_transition (transitions (workflow self)) cur targ") simp
  with assms(1,2,4,5,6,7) show ?thesis
    by (simp add: set_state_def)
qed

text \<open>
  Retracting a submitted document: T1 has written to the log, T2's exception reaches the
  caller, and the document is still submitted.
\<close>

theorem set_state_trigger_failure_witness:
  "states_getitem (states (workflow (ex_doc ''submitted'' ''reader''))) (Name ''draft'')
     = Inr ex_draft
   \<and> state (ex_doc ''submitted'' ''reader'') = Inr ex_submitted
   \<and> fst (find_transition (transitions (workflow (ex_doc ''submitted'' ''reader'')))
            ex_submitted ex_draft) = Inr ex_retract
   \<and> check_constraints (action ex_retract) (item (ex_doc ''submitted'' ''reader''))
        (namespace (ex_doc ''submitted'' ''reader''))
       = (Inr None, \<lparr>workflow_state = Some ''submitted'', log = []\<rparr>)
   \<and> triggers (action ex_retract) = [ex_notify ''T1'', ex_broken ''T2'']
   \<and> ex_notify ''T1'' \<lparr>workflow_state = Some ''submitted'', log = []\<rparr>
        (namespace (ex_doc ''submitted'' ''reader''))
       = (None, \<lparr>workflow_state = Some ''submitted'', log = [''T1'']\<rparr>)
   \<and> ex_broken ''T2'' \<lparr>workflow_state = Some ''submitted'', log = [''T1'']\<rparr>
        (namespace (ex_doc ''submitted'' ''reader''))
       = (Some (Exception ''T2''), \<lparr>workflow_state = Some ''submitted'', log = [''T1'']\<rparr>)
   \<and> fst (set_state (ex_doc ''submitted'' ''reader'') ''draft'') = Some (Exception ''T2'')
   \<and> item (snd (set_state (ex_doc ''submitted'' ''reader'') ''draft''))
       = \<lparr>workflow_state = Some ''submitted'', log = [''T1'']\<rparr>
   \<and> workflow_state (item (snd (set_state (ex_doc ''submitted'' ''reader'') ''draft'')))
       = workflow_state (item (ex_doc ''submitted'' ''reader''))"
proof -
  have 1: "states_getitem (states (workflow (ex_doc ''submitted'' ''reader''))) (Name ''draft'')
     = Inr ex_draft"
    by (simp add: ex_doc_def ex_workflow_def ex_states_def ex_transitions_def ex_submit_def ex_publish_def
        ex_retract_def ex_draft_def ex_submitted_def ex_published_def ex_pass_def ex_role_def
        ex_notify_def ex_broken_def)
  have 2: "state (ex_doc ''submitted'' ''reader'') = Inr ex_submitted"
    by (simp add: ex_doc_def ex_workflow_def ex_states_def ex_transitions_def ex_submit_def ex_publish_def
        ex_retract_def ex_draft_def ex_submitted_def ex_published_def ex_pass_def ex_role_def
        ex_notify_def ex_broken_def
        set_state_def state_def truthy_def get_state_def
        find_transition_def Transitions_new_def add_edge_def defaultdict_getitem_def state_eq_def
        check_constraints_def resolve_validators_def)
  have 3: "fst (find_transition (transitions (workflow (ex_doc ''submitted'' ''reader'')))
            ex_submitted ex_draft) = Inr ex_retract"
    by (simp add: ex_doc_def ex_workflow_def ex_states_def ex_transitions_def ex_submit_def ex_publish_def
        ex_retract_def ex_draft_def ex_submitted_def ex_published_def ex_pass_def ex_role_def
        ex_notify_def ex_broken_def
        set_state_def state_def truthy_def get_state_def
        find_transition_def Transitions_new_def add_edge_def defaultdict_getitem_def state_eq_def
        check_constraints_def resolve_validators_def)
  have 4: "check_constraints (action ex_retract) (item (ex_doc ''submitted'' ''reader''))
        (namespace (ex_doc ''submitted'' ''reader''))
       = (Inr None, \<lparr>workflow_state = Some ''submitted'', log = []\<rparr>)"
    by (simp add: ex_doc_def ex_workflow_def ex_states_def ex_transitions_def ex_submit_def ex_publish_def
        ex_retract_def ex_draft_def ex_submitted_def ex_published_def ex_pass_def ex_role_def
        ex_notify_def ex_broken_def
        set_state_def state_def truthy_def get_state_def
        find_transition_def Transitions_new_def add_edge_def defaultdict_getitem_def state_eq_def
        check_constraints_def resolve_validators_def)
  have 5: "triggers (action ex_retract) = [ex_notify ''T1'', ex_broken ''T2'']"
    by (simp add: ex_retract_def)
  have 6: "ex_notify ''T1'' \<lparr>workflow_state = Some ''submitted'', log = []\<rparr>
        (namespace (ex_doc ''submitted'' ''reader''))
       = (None, \<lparr>workflow_state = Some ''submitted'', log = [''T1'']\<rparr>)"
    by (simp add: ex_notify_def)
  have 7: "ex_broken ''T2'' \<lparr>workflow_state = Some ''submitted'', log = [''T1'']\<rparr>
        (namespace (ex_doc ''submitted'' ''reader''))
       = (Some (Exception ''T2''), \<lparr>workflow_state = Some ''submitted'', log = [''T1'']\<rparr>)"
    by (simp add: ex_broken_def)
  have 8: "workflow_state (item (ex_doc ''submitted'' ''reader'')) = Some ''submitted''"
    by (simp add: ex_doc_def)
  from set_state_trigger_failure [OF 1 2 3 4 5 6 7] 1 2 3 4 5 6 7 8 show ?thesis
    by simp
qed

text \<open>
  C3. When \<open>set_state\<close> returns normally, the target was resolved, the transition found
  and its constraints passed; every trigger of the action returned, each called in list
  order on the entity as the previous one left it, with the recorded state not yet
  written; and the entity after the call is the entity after the last trigger with the
  name of the target state written into the slot.
\<close>

theorem set_state_success:
  assumes "fst (set_state self target_state) = None"
  shows "\<exists>targ cur trn itm0.
           states_getitem (states (workflow self)) (Name target_state) = Inr targ
         \<and> state self = Inr cur
         \<and> fst (find_transition (transitions (workflow self)) cur targ) = Inr trn
         \<and> check_constraints (action trn) (item self) (namespace self) = (Inr None, itm0)
         \<and> run_triggers (triggers (action trn)) itm0 (namespace self)
             = (None, all_triggers_applied (triggers (action trn)) itm0 (namespace self))
         \<and> item (snd (set_state self target_state))
             = (all_triggers_applied (triggers (action trn)) itm0 (namespace self))
                 \<lparr>workflow_state := Some (name targ)\<rparr>"
proof -
  obtain targ where 1: "states_getitem (states (workflow self)) (Name target_state) = Inr targ"
    using assms
    by (cases "states_getitem (states (workflow self)) (Name target_state)")
      (simp_all add: set_state_def)
  obtain cur where 2: "state self = Inr cur"
    using assms 1 by (cases "state self") (simp_all add: set_state_def)
  obtain found trns' where
    f: "find_transition (transitions (workflow self)) cur targ = (found, trns')"
    by (cases "find_transition (transitions (workflow self)) cur targ")
  obtain trn where 3: "found = Inr trn"
    using assms 1 2 f by (cases found) (simp_all add: set_state_def)
  obtain c itm0 where
    c: "check_constraints (action trn) (item self) (namespace self) = (c, itm0)"
    by (cases "check_constraints (action trn) (item self) (namespace self)")
  have 4: "c = Inr None"
  proof (cases c)
    case (Inl e)
    with assms 1 2 f 3 c show ?thesis by (simp add: set_state_def)
  next
    case (Inr r)
    with assms 1 2 f 3 c show ?thesis by (cases r) (simp_all add: set_state_def)
  qed
  obtain r itm1 where
    t: "run_triggers (triggers (action trn)) itm0 (namespace self) = (r, itm1)"
    by (cases "run_triggers (triggers (action trn)) itm0 (namespace self)")
  have 5: "r = None"
    using assms 1 2 f 3 c 4 t by (cases r) (simp_all add: set_state_def)
  from t 5 have 6: "itm1 = all_triggers_applied (triggers (action trn)) itm0 (namespace self)"
    by (simp add: run_triggers_all)
  have "item (snd (set_state self target_state)) = itm1\<lparr>workflow_state := Some (name targ)\<rparr>"
    using 1 2 f 3 c 4 t 5 by (simp add: set_state_def)
  with 1 2 f 3 c 4 t 5 6 show ?thesis
    by auto
qed

text \<open>
  An editor publishes a submitted document: both triggers have written to the log, in
  their order, and the slot holds the name of the published state.
\<close>

theorem set_state_success_witness:
  "fst (set_state (ex_doc ''submitted'' ''editor'') ''published'') = None
   \<and> item (snd (set_state (ex_doc ''submitted'' ''editor'') ''published''))
       = \<lparr>workflow_state = Some ''published'', log = [''indexed'', ''announced'']\<rparr>
   \<and> (\<exists>targ cur trn itm0.
           states_getitem (states (workflow (ex_doc ''submitted'' ''editor''))) (Name ''published'')
             = Inr targ
         \<and> state (ex_doc ''submitted'' ''editor'') = Inr cur
         \<and> fst (find_transition (transitions (workflow (ex_doc ''submitted'' ''editor''))) cur targ)
             = Inr trn
         \<and> check_constraints (action trn) (item (ex_doc ''submitted'' ''editor''))
              (namespace (ex_doc ''submitted'' ''editor'')) = (Inr None, itm0)
         \<and> run_triggers (triggers (action trn)) itm0 (namespace (ex_doc ''submitted'' ''editor''))
             = (None, all_triggers_applied (triggers (action trn)) itm0
                        (namespace (ex_doc ''submitted'' ''editor'')))
         \<and> item (snd (set_state (ex_doc ''submitted'' ''editor'') ''published''))
             = (all_triggers_applied (triggers (action trn)) itm0
                  (namespace (ex_doc ''submitted'' ''editor'')))
                 \<lparr>workflow_state := Some (name targ)\<rparr>)"
proof -
  have h: "fst (set_state (ex_doc ''submitted'' ''editor'') ''published'') = None"
    by (simp add: ex_doc_def ex_workflow_def ex_states_def ex_transitions_def ex_submit_def ex_publish_def
        ex_retract_def ex_draft_def ex_submitted_def ex_published_def ex_pass_def ex_role_def
        ex_notify_def ex_broken_def
        set_state_def state_def truthy_def get_state_def
        find_transition_def Transitions_new_def add_edge_def defaultdict_getitem_def state_eq_def
        check_constraints_def resolve_validators_def)
  have i: "item (snd (set_state (ex_doc ''submitted'' ''editor'') ''published''))
       = \<lparr>workflow_state = Some ''published'', log = [''indexed'', ''announced'']\<rparr>"
    by (simp add: ex_doc_def ex_workflow_def ex_states_def ex_transitions_def ex_submit_def ex_publish_def
        ex_retract_def ex_draft_def ex_submitted_def ex_published_def ex_pass_def ex_role_def
        ex_notify_def ex_broken_def
        set_state_def state_def truthy_def get_state_def
        find_transition_def Transitions_new_def add_edge_def defaultdict_getitem_def state_eq_def
        check_constraints_def resolve_validators_def)
  from h i set_state_success [OF h] show ?thesis
    by blast
qed

end
